theory Spec2Isabelle
  imports Main
begin

section \<open>JavaScript strings and arrays\<close>

text \<open>
  A JavaScript string is a sequence of UTF-16 code units; \<open>length\<close>, \<open>slice\<close>,
  \<open>indexOf\<close> and the character classes of a regular expression without the \<open>u\<close> flag
  all count code units. A code unit is modelled by its number, an ASCII literal of the
  source by \<open>str\<close> of the same characters.
\<close>

type_synonym jschar = nat
type_synonym jsstring = "jschar list"

definition str :: "string \<Rightarrow> jsstring" where
  "str s = map of_char s"

text \<open>
  \<open>xs.slice(start, end)\<close> of strings and arrays: a negative index counts from the end,
  and both indices are clamped to the length.
\<close>

definition rel_index :: "nat \<Rightarrow> int \<Rightarrow> nat" where
  "rel_index len k = (if k < 0 then nat (max 0 (int len + k)) else min (nat k) len)"

definition slice :: "'a list \<Rightarrow> int \<Rightarrow> int \<Rightarrow> 'a list" where
  "slice xs start stop =
     (let i = rel_index (length xs) start; j = rel_index (length xs) stop
      in take (j - i) (drop i xs))"

text \<open>\<open>xs.slice(start)\<close>: the end defaults to the length.\<close>

definition slice_from :: "'a list \<Rightarrow> int \<Rightarrow> 'a list" where
  "slice_from xs start = slice xs start (int (length xs))"

text \<open>\<open>xs.indexOf(x)\<close> of an array: the first position of \<open>x\<close>, or -1.\<close>

fun array_indexOf :: "'a list \<Rightarrow> 'a \<Rightarrow> int" where
  "array_indexOf [] x = -1"
| "array_indexOf (y # ys) x =
     (if y = x then 0 else (let i = array_indexOf ys x in if i < 0 then -1 else i + 1))"

section \<open>The encoder: \<open>Message.format\<close>\<close>

subsection \<open>Data\<close>

text \<open>
  Modelled from the spec: the element type \<open>MessageElem\<close> and \<open>Sendable\<close> are declared in
  \<open>@/elements\<close>, which is not among the sources. The spec's data model gives the variants
  \<open>Text{text}\<close>, \<open>Face{id}\<close>, \<open>At{id|all}\<close>, \<open>Link{channel_id}\<close>,
  \<open>Image|Audio|Video{file,...}\<close>, \<open>Reply{message_id}\<close>, \<open>Markdown{content}\<close>, \<open>Button{data}\<close>,
  with string values; \<open>Other\<close> is an element of any other type. Each constructor carries
  the fields \<open>format\<close> reads. The identifier of \<open>At\<close> is optional. The type of the data
  of a button is a parameter.
\<close>

datatype 'd elem =
    Text jsstring
  | Face jsstring
  | At "jsstring option"
  | Link jsstring
  | Image jsstring
  | Audio jsstring
  | Video jsstring
  | Reply jsstring
  | Markdown jsstring
  | Button 'd
  | Other jsstring

text \<open>An entry of the input is a bare string or an element.\<close>

datatype 'd item = Str jsstring | El "'d elem"

text \<open>\<open>Sendable\<close>: one entry, or an array of entries.\<close>

datatype 'd sendable = One "'d item" | Many "'d item list"

text \<open>
  Modelled from the spec: \<open>Quotable\<close> (of \<open>@/elements\<close>) is the reference
  \<open>{message_id?, event_id?}\<close>. The parameter \<open>source\<close> of \<open>format\<close> defaults to \<open>{}\<close>,
  the record with both fields absent; on an object \<open>source?.message_id\<close> and
  \<open>source!.event_id\<close> are plain reads of the field.
\<close>

record quotable =
  message_id :: "jsstring option"
  event_id :: "jsstring option"

text \<open>
  Both payloads are objects of type \<open>Dict\<close>. The record has every key \<open>format\<close> writes
  to either of them; \<open>None\<close> is a key that is absent or undefined. The keyboard
  \<open>{content: {rows: [{buttons: row}, ...]}}\<close> is kept as the list of its rows, the markdown
  \<open>{content: c}\<close> as \<open>c\<close>. The key \<open>event_id\<close> is \<open>event_id'\<close> here, the name
  \<open>event_id\<close> being the field of the quote reference.
\<close>

record 'd dict =
  msg_type :: "nat option"
  content :: "jsstring option"
  msg_id :: "jsstring option"
  msg_seq :: "int option"
  timestamp :: "nat option"
  markdown :: "jsstring option"
  keyboard :: "'d list list option"
  file_type :: "int option"
  url :: "jsstring option"
  event_id' :: "jsstring option"
  srv_send_msg :: "bool option"

text \<open>The returned object, and the state of the loop: the same with the list of buttons.\<close>

record 'd encoded =
  messages :: "'d dict"
  hasFiles :: bool
  hasMessages :: bool
  brief :: jsstring
  files :: "'d dict"

record 'd routing = "'d encoded" +
  buttons :: "'d list"

text \<open>
  The four reads of the outside world that one call makes, in the order the call makes
  them: the raw sample of the first \<open>randomInt\<close>, the first \<open>Date.now()\<close> (milliseconds),
  the raw sample of the second \<open>randomInt\<close>, the second \<open>Date.now()\<close>.
\<close>

record readings =
  rand1 :: nat
  now1 :: nat
  rand2 :: nat
  now2 :: nat

subsection \<open>Library functions\<close>

text \<open>
  \<open>crypto.randomInt(min, max)\<close> of Node.js returns \<open>min + x % (max - min)\<close> for a raw
  sample \<open>x\<close> of its entropy source (drawn again until it is below the largest multiple
  of the range): an integer \<open>n\<close> with \<open>min \<le> n < max\<close>. The raw sample is the argument
  \<open>x\<close>.
\<close>

definition randomInt :: "int \<Rightarrow> int \<Rightarrow> nat \<Rightarrow> int" where
  "randomInt lo hi x = lo + int x mod (hi - lo)"

text \<open>
  \<open>Number((ms / 1000).toFixed(0))\<close> for a clock value \<open>ms\<close>, a non-negative integer of
  milliseconds: \<open>toFixed(0)\<close> rounds to the nearest integer, a tie to the larger one.
\<close>

definition unix_seconds :: "nat \<Rightarrow> nat" where
  "unix_seconds ms = (ms + 500) div 1000"

definition is_truthy :: "jsstring option \<Rightarrow> bool" where
  "is_truthy v = (case v of None \<Rightarrow> False | Some s \<Rightarrow> s \<noteq> [])"

text \<open>A template literal prints an undefined value as \<open>undefined\<close>.\<close>

definition show_opt :: "jsstring option \<Rightarrow> jsstring" where
  "show_opt v = (case v of None \<Rightarrow> str ''undefined'' | Some s \<Rightarrow> s)"

definition getType :: "jsstring \<Rightarrow> int" where
  "getType ty = array_indexOf [str ''image'', str ''video'', str ''audio''] ty + 1"

subsection \<open>The routing loop\<close>

text \<open>
  \<open>messages.content\<close> after an addition of \<open>s\<close>: appended when the content is truthy,
  assigned otherwise.
\<close>

definition add_content :: "'d dict \<Rightarrow> jsstring \<Rightarrow> 'd dict" where
  "add_content m s =
     (if is_truthy (content m) then m\<lparr>content := Some (show_opt (content m) @ s)\<rparr>
      else m\<lparr>content := Some s\<rparr>)"

text \<open>\<open>elem.id || 'everyone'\<close>\<close>

definition id_or_everyone :: "jsstring option \<Rightarrow> jsstring" where
  "id_or_everyone i = (if is_truthy i then show_opt i else str ''everyone'')"

text \<open>The three media cases share one body; \<open>ty\<close> is \<open>elem.type\<close>.\<close>

definition route_media ::
    "quotable \<Rightarrow> jsstring \<Rightarrow> jsstring \<Rightarrow> 'd routing \<Rightarrow> 'd routing" where
  "route_media source ty file st =
     st\<lparr>files := (files st)\<lparr>file_type := Some (getType ty), content := Some (str ''file''),
            url := Some file, event_id' := event_id source, msg_id := message_id source,
            srv_send_msg := Some True\<rparr>,
        hasFiles := True,
        brief := brief st @ str ''<'' @ ty @ str '',file='' @ file @ str ''>''\<rparr>"

text \<open>The body of the \<open>switch\<close>; \<open>stringify\<close> is \<open>JSON.stringify\<close> on the data of a button.\<close>

fun route_elem ::
    "('d \<Rightarrow> jsstring) \<Rightarrow> quotable \<Rightarrow> 'd routing \<Rightarrow> 'd elem \<Rightarrow> 'd routing" where
  "route_elem stringify source st (Reply mid) =
     st\<lparr>messages := (messages st)\<lparr>msg_id := Some mid\<rparr>,
        files := (files st)\<lparr>msg_id := Some mid\<rparr>,
        brief := brief st @ str ''<$reply,message_id='' @ mid @ str ''>''\<rparr>"
| "route_elem stringify source st (At i) =
     st\<lparr>messages := add_content (messages st) (str ''<@'' @ id_or_everyone i @ str ''>''),
        brief := brief st @ str ''<$at,user='' @ id_or_everyone i @ str ''>''\<rparr>"
| "route_elem stringify source st (Link c) =
     st\<lparr>messages := add_content (messages st) (str ''<#'' @ c @ str ''>''),
        brief := brief st @ str ''<$link,channel='' @ c @ str ''>''\<rparr>"
| "route_elem stringify source st (Text t) =
     st\<lparr>messages := add_content (messages st) t,
        hasMessages := True,
        brief := brief st @ t\<rparr>"
| "route_elem stringify source st (Face i) =
     st\<lparr>messages := add_content (messages st) (str ''<emoji:'' @ i @ str ''>''),
        brief := brief st @ str ''<$face,id='' @ i @ str ''>'',
        hasMessages := True\<rparr>"
| "route_elem stringify source st (Image f) = route_media source (str ''image'') f st"
| "route_elem stringify source st (Audio f) = route_media source (str ''audio'') f st"
| "route_elem stringify source st (Video f) = route_media source (str ''video'') f st"
| "route_elem stringify source st (Markdown c) =
     st\<lparr>messages := (messages st)\<lparr>markdown := Some c, msg_type := Some 2\<rparr>,
        hasMessages := True,
        brief := brief st @ str ''<#markdown,content='' @ c @ str ''>''\<rparr>"
| "route_elem stringify source st (Button d) =
     st\<lparr>buttons := buttons st @ [d],
        brief := brief st @ str ''<$button,data='' @ stringify d @ str ''>''\<rparr>"
| "route_elem stringify source st (Other ty) = st"

text \<open>One iteration: a bare string becomes a text element first.\<close>

definition route ::
    "('d \<Rightarrow> jsstring) \<Rightarrow> quotable \<Rightarrow> 'd routing \<Rightarrow> 'd item \<Rightarrow> 'd routing" where
  "route stringify source st it =
     route_elem stringify source st (case it of Str s \<Rightarrow> Text s | El e \<Rightarrow> e)"

subsection \<open>The rows of the keyboard\<close>

text \<open>\<open>for (let i = 0; i < buttons.length; i += 4) rows.push(buttons.slice(i, i + 4))\<close>\<close>

function rows_from :: "nat \<Rightarrow> 'd list \<Rightarrow> 'd list list" where
  "rows_from i bs =
     (if i < length bs then slice bs (int i) (int i + 4) # rows_from (i + 4) bs else [])"
  by pat_completeness auto
termination
  by (relation "measure (\<lambda>(i, bs). length bs - i)") auto

declare rows_from.simps [simp del]

subsection \<open>\<open>format\<close>\<close>

definition empty_dict :: "'d dict" where
  "empty_dict = \<lparr>msg_type = None, content = None, msg_id = None, msg_seq = None,
     timestamp = None, markdown = None, keyboard = None, file_type = None, url = None,
     event_id' = None, srv_send_msg = None\<rparr>"

text \<open>\<open>if (!Array.isArray(message)) message = [message]\<close>\<close>

definition as_array :: "'d sendable \<Rightarrow> 'd item list" where
  "as_array message = (case message of One x \<Rightarrow> [x] | Many xs \<Rightarrow> xs)"

definition format ::
    "readings \<Rightarrow> ('d \<Rightarrow> jsstring) \<Rightarrow> 'd sendable \<Rightarrow> quotable \<Rightarrow> 'd encoded" where
  "format rd stringify message source =
     (let messages0 = empty_dict\<lparr>msg_type := Some 0, content := Some [],
            msg_id := message_id source,
            msg_seq := Some (randomInt 1 1000000 (rand1 rd)),
            timestamp := Some (unix_seconds (now1 rd))\<rparr>;
          files0 = empty_dict\<lparr>msg_id := message_id source,
            msg_seq := Some (randomInt 1 1000000 (rand2 rd)),
            timestamp := Some (unix_seconds (now2 rd))\<rparr>;
          st0 = \<lparr>messages = messages0, hasFiles = False, hasMessages = False, brief = [],
            files = files0, buttons = []\<rparr>;
          st = foldl (route stringify source) st0 (as_array message);
          messages1 =
            (if buttons st \<noteq> [] then (messages st)\<lparr>keyboard := Some (rows_from 0 (buttons st))\<rparr>
             else messages st)
      in \<lparr>messages = messages1, hasFiles = hasFiles st, hasMessages = hasMessages st,
          brief = brief st, files = files st\<rparr>)"

section \<open>The decoder: \<open>Message.parse\<close>\<close>

subsection \<open>Values and objects\<close>

text \<open>
  The values of the fields of an object: the records of the platform (mentions,
  attachments) and the elements \<open>parse\<close> builds. A number is an integer here. An object is
  the list of its entries, in the order \<open>Object.entries\<close> lists them.
\<close>

datatype jsval =
    JUndefined
  | JNull
  | JBool bool
  | JNum int
  | JStr jsstring
  | JArr "jsval list"
  | JObj "(jsstring \<times> jsval) list"

type_synonym obj = "(jsstring \<times> jsval) list"

datatype error = TypeError

text \<open>\<open>o.k\<close>: the value of the key, or undefined.\<close>

definition obj_get :: "obj \<Rightarrow> jsstring \<Rightarrow> jsval" where
  "obj_get ob k = (case map_of ob k of None \<Rightarrow> JUndefined | Some v \<Rightarrow> v)"

text \<open>
  \<open>o[k] = v\<close>: a key the object has keeps its place, a new key goes last. JavaScript
  lists the keys that are array indices first, in ascending order; the list here keeps
  them where they were put. The value of every key is the same, and the properties
  below read an element by its keys only.
\<close>

fun obj_put :: "obj \<Rightarrow> jsstring \<times> jsval \<Rightarrow> obj" where
  "obj_put [] (k, v) = [(k, v)]"
| "obj_put ((k', v') # ob) (k, v) =
     (if k' = k then (k, v) # ob else (k', v') # obj_put ob (k, v))"

text \<open>\<open>Object.fromEntries(entries)\<close>, and \<open>{...base, ...ob}\<close>.\<close>

definition fromEntries :: "(jsstring \<times> jsval) list \<Rightarrow> obj" where
  "fromEntries entries = foldl obj_put [] entries"

definition spread :: "obj \<Rightarrow> obj \<Rightarrow> obj" where
  "spread base ob = foldl obj_put base ob"

definition truthy :: "jsval \<Rightarrow> bool" where
  "truthy v = (case v of JUndefined \<Rightarrow> False | JNull \<Rightarrow> False | JBool b \<Rightarrow> b
     | JNum n \<Rightarrow> n \<noteq> 0 | JStr s \<Rightarrow> s \<noteq> [] | JArr _ \<Rightarrow> True | JObj _ \<Rightarrow> True)"

text \<open>\<open>a || b\<close>\<close>

definition or_else :: "jsval \<Rightarrow> jsval \<Rightarrow> jsval" where
  "or_else a b = (if truthy a then a else b)"

fun join :: "jsstring \<Rightarrow> jsstring list \<Rightarrow> jsstring" where
  "join sep [] = []"
| "join sep [x] = x"
| "join sep (x # y # ys) = x @ sep @ join sep (y # ys)"

fun digits :: "nat \<Rightarrow> jsstring" where
  "digits n = (if n < 10 then [48 + n] else digits (n div 10) @ [48 + n mod 10])"

declare digits.simps [simp del]

text \<open>
  The string of a value in a template literal and in \<open>Array.prototype.join\<close> (which
  prints null and undefined entries as the empty string). A number is printed with all
  its decimal digits, as JavaScript prints the integers below \<open>10^21\<close>.
\<close>

fun to_string :: "jsval \<Rightarrow> jsstring" where
  "to_string JUndefined = str ''undefined''"
| "to_string JNull = str ''null''"
| "to_string (JBool b) = (if b then str ''true'' else str ''false'')"
| "to_string (JNum n) = (if n < 0 then str ''-'' @ digits (nat (- n)) else digits (nat n))"
| "to_string (JStr s) = s"
| "to_string (JArr vs) =
     join (str '','')
       (map (\<lambda>v. if v = JUndefined \<or> v = JNull then [] else to_string v) vs)"
| "to_string (JObj ob) = str ''[object Object]''"

definition array_join :: "jsstring \<Rightarrow> jsval list \<Rightarrow> jsstring" where
  "array_join sep vs = join sep (map (\<lambda>v. if v = JUndefined \<or> v = JNull then [] else to_string v) vs)"

subsection \<open>String functions\<close>

text \<open>\<open>s.startsWith(p)\<close>\<close>

definition startsWith :: "jsstring \<Rightarrow> jsstring \<Rightarrow> bool" where
  "startsWith s p = (take (length p) s = p)"

text \<open>The first position at which \<open>m\<close> occurs in \<open>s\<close>.\<close>

fun find_sub :: "jsstring \<Rightarrow> jsstring \<Rightarrow> nat option" where
  "find_sub m [] = (if m = [] then Some 0 else None)"
| "find_sub m (c # cs) =
     (if take (length m) (c # cs) = m then Some 0 else map_option Suc (find_sub m cs))"

text \<open>\<open>s.indexOf(m)\<close>: -1 when \<open>m\<close> does not occur.\<close>

definition indexOf :: "jsstring \<Rightarrow> jsstring \<Rightarrow> int" where
  "indexOf s m = (case find_sub m s of None \<Rightarrow> -1 | Some i \<Rightarrow> int i)"

text \<open>
  \<open>s.replace(pat, rep)\<close> with a string pattern replaces the first occurrence only (the
  replacement has no \<open>$\<close>).
\<close>

definition replace :: "jsstring \<Rightarrow> jsstring \<Rightarrow> jsstring \<Rightarrow> jsstring" where
  "replace s pat rep =
     (case find_sub pat s of None \<Rightarrow> s
      | Some i \<Rightarrow> take i s @ rep @ drop (i + length pat) s)"

text \<open>
  \<open>s.split(sep)\<close> for a separator of one code unit. The result is never empty, so
  where a caller takes its first part, the case of the empty list is never reached.
\<close>

fun split :: "jschar \<Rightarrow> jsstring \<Rightarrow> jsstring list" where
  "split sep [] = [[]]"
| "split sep (c # cs) =
     (if c = sep then [] # split sep cs
      else (case split sep cs of [] \<Rightarrow> [[c]] | p # ps \<Rightarrow> (c # p) # ps))"

text \<open>
  The library functions \<open>parse\<close> calls whose code is not modelled: \<open>toLowerCase\<close> of the
  language, and \<open>trimQuote\<close> of \<open>@/utils\<close>, which is not among the sources. They are
  parameters of \<open>parse\<close>.
\<close>

record js_lib =
  toLowerCase :: "jsstring \<Rightarrow> jsstring"
  trimQuote :: "jsstring \<Rightarrow> jsstring"

text \<open>An instance for evaluation: the lower case of the ASCII letters.\<close>

definition ascii_lower :: "jsstring \<Rightarrow> jsstring" where
  "ascii_lower s = map (\<lambda>c. if 65 \<le> c \<and> c \<le> 90 then c + 32 else c) s"

text \<open>
  Modelled from the spec: \<open>trimQuote\<close> of \<open>@/utils\<close> is not among the sources;
  "attribute values have one layer of surrounding quote characters stripped if present
  (same quote-style set as above)", the styles being straight double and single quotes,
  the backtick, and curly double and single quotes.
\<close>

definition quote_styles :: "(jschar \<times> jschar) list" where
  "quote_styles = [(34, 34), (39, 39), (96, 96), (8220, 8221), (8216, 8217)]"

definition trim_quote :: "jsstring \<Rightarrow> jsstring" where
  "trim_quote s =
     (if 2 \<le> length s \<and> (hd s, last s) \<in> set quote_styles then slice s 1 (-1) else s)"

definition ascii_lib :: js_lib where
  "ascii_lib = \<lparr>toLowerCase = ascii_lower, trimQuote = trim_quote\<rparr>"

subsection \<open>The regular expression\<close>

text \<open>
  The six alternatives of the pattern, in its order. Each is an opening code unit, a run
  of code units other than the closing one, and the closing code unit; the run of the
  quoted alternatives may be empty, the run of a tag \<open><...>\<close> has at least one code unit.
  Since the run cannot hold the closing code unit, a lazy quantifier matches the same
  text as a greedy one: up to the first closing code unit.
\<close>

definition alternatives :: "(jschar \<times> jschar \<times> nat) list" where
  "alternatives =
     [(34, 34, 0), (39, 39, 0), (96, 96, 0), (8220, 8221, 0), (8216, 8217, 0), (60, 62, 1)]"

text \<open>One alternative at the start of \<open>s\<close>.\<close>

fun match_alt :: "jschar \<times> jschar \<times> nat \<Rightarrow> jsstring \<Rightarrow> jsstring option" where
  "match_alt (opening, closing, least) [] = None"
| "match_alt (opening, closing, least) (c # cs) =
     (let run = takeWhile (\<lambda>x. x \<noteq> closing) cs
      in if c = opening \<and> least \<le> length run \<and> length run < length cs
         then Some (c # run @ [closing]) else None)"

text \<open>The first alternative that matches at the start of \<open>s\<close>.\<close>

fun match_here :: "(jschar \<times> jschar \<times> nat) list \<Rightarrow> jsstring \<Rightarrow> jsstring option" where
  "match_here [] s = None"
| "match_here (a # as) s =
     (case match_alt a s of Some m \<Rightarrow> Some m | None \<Rightarrow> match_here as s)"

text \<open>\<open>template.match(regex)\<close>: the match at the leftmost position that has one.\<close>

fun regex_match :: "jsstring \<Rightarrow> jsstring option" where
  "regex_match [] = None"
| "regex_match (c # cs) =
     (case match_here alternatives (c # cs) of Some m \<Rightarrow> Some m | None \<Rightarrow> regex_match cs)"

text \<open>\<open>/^[a-z]+:[0-9]+$/.test(ty)\<close>\<close>

definition is_lower :: "jschar \<Rightarrow> bool" where
  "is_lower c = (97 \<le> c \<and> c \<le> 122)"

definition is_digit :: "jschar \<Rightarrow> bool" where
  "is_digit c = (48 \<le> c \<and> c \<le> 57)"

definition is_shorthand :: "jsstring \<Rightarrow> bool" where
  "is_shorthand ty =
     (takeWhile is_lower ty \<noteq> [] \<and>
      (case dropWhile is_lower ty of [] \<Rightarrow> False
       | c # ds \<Rightarrow> c = 58 \<and> ds \<noteq> [] \<and> list_all is_digit ds))"

subsection \<open>The inbound payload\<close>

text \<open>
  An attachment \<open>{content_type, ...data}\<close>: the MIME type and the other entries. The
  payload: the template (absent or empty when \<open>payload.content\<close> is falsy), the optional
  list of attachments and the optional list of mention records. The field \<open>content\<close> of
  the inbound payload is \<open>content'\<close> here, the name \<open>content\<close> being the field of the
  outbound payloads.
\<close>

record attachment =
  content_type :: jsstring
  data :: obj

record payload =
  content' :: "jsstring option"
  attachments :: "attachment list option"
  mentions :: "obj list option"

subsection \<open>One tag\<close>

text \<open>
  The rules of a tag \<open><type,attr,...>\<close>, in the order of the source. The result is the
  type and the attribute tokens after the rules. A token is a string, but for
  \<open>@everyone\<close>, whose one token is the array \<open>['all', true]\<close>. With no list of mentions,
  \<open>payload.mentions.find\<close> raises a \<open>TypeError\<close>.
\<close>

definition resolve :: "payload \<Rightarrow> jsstring \<Rightarrow> jsstring list \<Rightarrow> error + jsstring \<times> jsval list" where
  "resolve p ty attrs =
     (if startsWith ty (str ''faceType'') then
        Inr (str ''face'', map (\<lambda>attr. JStr (replace attr (str ''faceId'') (str ''id''))) attrs)
      else if startsWith ty (str ''@'') then
        (if startsWith ty (str ''@!'') then
           (let ident = slice_from ty 2
            in case mentions p of
                 None \<Rightarrow> Inl TypeError
               | Some ms \<Rightarrow>
                   Inr (str ''at'',
                     map (\<lambda>(key, v). JStr (key @ str ''='' @ to_string v))
                       (case find (\<lambda>u. obj_get u (str ''id'') = JStr ident) ms of
                          None \<Rightarrow> [] | Some u \<Rightarrow> u)))
         else if ty = str ''@everyone'' then
           Inr (str ''at'', [JArr [JStr (str ''all''), JBool True]])
         else Inr (ty, map JStr attrs))
      else if is_shorthand ty then
        Inr (str ''face'',
          [JStr (str ''id='' @ (case split 58 ty of _ # d # _ \<Rightarrow> d | _ \<Rightarrow> str ''undefined''))])
      else Inr (ty, map JStr attrs))"

text \<open>
  The entry of one attribute token: \<open>attr.split('=')\<close> is a method of strings only, so a
  token that is not a string raises a \<open>TypeError\<close> (\<open>attr.split is not a function\<close>).
\<close>

definition attr_entry :: "js_lib \<Rightarrow> jsval \<Rightarrow> error + jsstring \<times> jsval" where
  "attr_entry lib attr =
     (case attr of
        JStr s \<Rightarrow>
          (case split 61 s of
             [] \<Rightarrow> Inl TypeError
           | key # values \<Rightarrow>
               Inr (toLowerCase lib key, JStr (trimQuote lib (join (str ''='') values))))
      | _ \<Rightarrow> Inl TypeError)"

text \<open>\<open>xs.map(f)\<close> for an \<open>f\<close> that may raise: the first error ends it.\<close>

fun map_result :: "('a \<Rightarrow> error + 'b) \<Rightarrow> 'a list \<Rightarrow> error + 'b list" where
  "map_result f [] = Inr []"
| "map_result f (x # xs) =
     (case f x of
        Inl e \<Rightarrow> Inl e
      | Inr y \<Rightarrow> (case map_result f xs of Inl e \<Rightarrow> Inl e | Inr ys \<Rightarrow> Inr (y # ys)))"

text \<open>The element of a tag \<open>m\<close> and its marker in the brief.\<close>

definition tag_elem :: "js_lib \<Rightarrow> payload \<Rightarrow> jsstring \<Rightarrow> error + obj \<times> jsstring" where
  "tag_elem lib p m =
     (case split 44 (slice m 1 (-1)) of
        [] \<Rightarrow> Inl TypeError
      | ty # attrs \<Rightarrow>
          (case resolve p ty attrs of
             Inl e \<Rightarrow> Inl e
           | Inr (ty', attrs') \<Rightarrow>
               (case map_result (attr_entry lib) attrs' of
                  Inl e \<Rightarrow> Inl e
                | Inr entries \<Rightarrow>
                    Inr (spread [(str ''type'', JStr ty')] (fromEntries entries),
                         str ''<'' @ ty' @ str '':'' @ array_join (str '','') attrs' @ str ''>''))))"

subsection \<open>The scan loop\<close>

text \<open>
  The first half of an iteration: the match, the text before it and the template after
  it; \<open>None\<close> when the loop breaks.
\<close>

definition consume :: "jsstring \<Rightarrow> (jsstring \<times> jsstring \<times> jsstring) option" where
  "consume template =
     (case regex_match template of
        None \<Rightarrow> None
      | Some m \<Rightarrow>
          if m = [] then None
          else (let index = indexOf template m;
                    prevText = slice template 0 index
                in Some (prevText, m, slice_from template (index + int (length m)))))"

datatype step = Break | Raise error | Continue jsstring "obj list" jsstring

text \<open>The element of the text before a match, and the element of a quoted run.\<close>

definition text_elem :: "jsstring \<Rightarrow> obj" where
  "text_elem t = [(str ''type'', JStr (str ''text'')), (str ''text'', JStr t)]"

definition quoted_elem :: "jsstring \<Rightarrow> obj" where
  "quoted_elem m = [(str ''type'', JStr (str ''text'')), (str ''data'', JObj [(str ''text'', JStr m)])]"

text \<open>The second half; \<open>summary\<close> is the variable \<open>brief\<close>.\<close>

definition scan_body :: "js_lib \<Rightarrow> payload \<Rightarrow> jsstring \<Rightarrow> obj list \<Rightarrow> jsstring \<Rightarrow> step" where
  "scan_body lib p template result summary =
     (case consume template of
        None \<Rightarrow> Break
      | Some (prevText, m, rest) \<Rightarrow>
          (let result1 = (if prevText \<noteq> [] then result @ [text_elem prevText] else result);
               summary1 = (if prevText \<noteq> [] then summary @ prevText else summary)
           in if startsWith m (str ''<'') then
                (case tag_elem lib p m of
                   Inl e \<Rightarrow> Raise e
                 | Inr (el, marker) \<Rightarrow> Continue rest (result1 @ [el]) (summary1 @ marker))
              else Continue rest (result1 @ [quoted_elem m]) (summary1 @ m)))"

text \<open>
  \<open>while (template.length) { ... }\<close>. The loop returns its three variables, or the error
  it raised; \<open>None\<close> is a loop that does not end.
\<close>

partial_function (option) scan ::
    "js_lib \<Rightarrow> payload \<Rightarrow> jsstring \<Rightarrow> obj list \<Rightarrow> jsstring
      \<Rightarrow> (error + jsstring \<times> obj list \<times> jsstring) option" where
  "scan lib p template result summary =
     (if length template \<noteq> 0 then
        (case scan_body lib p template result summary of
           Break \<Rightarrow> Some (Inr (template, result, summary))
         | Raise e \<Rightarrow> Some (Inl e)
         | Continue template' result' summary' \<Rightarrow> scan lib p template' result' summary')
      else Some (Inr (template, result, summary)))"

declare scan.simps [code]

subsection \<open>The attachments\<close>

text \<open>
  The element \<open>{type, ...data, src: data.src || data.url, url: data.url || data.src}\<close> of an
  attachment, \<open>type\<close> being the first part of \<open>content_type.split('/')\<close>, and its
  marker in the brief.
\<close>

definition attachment_elem :: "attachment \<Rightarrow> obj" where
  "attachment_elem a =
     (case split 47 (content_type a) of
        [] \<Rightarrow> []
      | ty # _ \<Rightarrow>
          spread (spread [(str ''type'', JStr ty)] (data a))
            [(str ''src'', or_else (obj_get (data a) (str ''src'')) (obj_get (data a) (str ''url''))),
             (str ''url'', or_else (obj_get (data a) (str ''url'')) (obj_get (data a) (str ''src'')))])"

definition attachment_brief :: "attachment \<Rightarrow> jsstring" where
  "attachment_brief a =
     str ''<$'' @ (case split 47 (content_type a) of [] \<Rightarrow> [] | ty # _ \<Rightarrow> ty) @ str '','' @
     join (str '','') (map (\<lambda>(key, v). key @ str ''='' @ to_string v) (data a)) @ str ''>''"

subsection \<open>\<open>parse\<close>\<close>

text \<open>
  The result is the list of elements, the brief, and the payload as the call leaves it
  (\<open>delete payload.attachments\<close>, \<open>delete payload.mentions\<close>).
\<close>

definition parse :: "js_lib \<Rightarrow> payload \<Rightarrow> (error + obj list \<times> jsstring \<times> payload) option" where
  "parse lib p =
     (case scan lib p (case content' p of None \<Rightarrow> [] | Some s \<Rightarrow> s) [] [] of
        None \<Rightarrow> None
      | Some (Inl e) \<Rightarrow> Some (Inl e)
      | Some (Inr (template, result, summary)) \<Rightarrow>
          (let result1 = (if template \<noteq> [] then result @ [text_elem template] else result);
               summary1 = (if template \<noteq> [] then summary @ template else summary);
               as = (case attachments p of None \<Rightarrow> [] | Some as \<Rightarrow> as);
               result2 = foldl (\<lambda>r a. r @ [attachment_elem a]) result1 as;
               summary2 = foldl (\<lambda>b a. b @ attachment_brief a) summary1 as
           in Some (Inr (result2, summary2, p\<lparr>attachments := None, mentions := None\<rparr>))))"

section \<open>The vocabulary of the properties\<close>

text \<open>The data of the buttons of an input, in the order of the input.\<close>

definition button_of :: "'d item \<Rightarrow> 'd list" where
  "button_of it = (case it of El (Button d) \<Rightarrow> [d] | _ \<Rightarrow> [])"

definition button_data :: "'d item list \<Rightarrow> 'd list" where
  "button_data items = concat (map button_of items)"

text \<open>The kinds of entries the properties speak of.\<close>

definition is_reply :: "'d item \<Rightarrow> bool" where
  "is_reply it = (case it of El (Reply _) \<Rightarrow> True | _ \<Rightarrow> False)"

definition is_media :: "'d item \<Rightarrow> bool" where
  "is_media it =
     (case it of El (Image _) \<Rightarrow> True | El (Audio _) \<Rightarrow> True | El (Video _) \<Rightarrow> True
      | _ \<Rightarrow> False)"

definition is_at_or_link :: "'d item \<Rightarrow> bool" where
  "is_at_or_link it = (case it of El (At _) \<Rightarrow> True | El (Link _) \<Rightarrow> True | _ \<Rightarrow> False)"

text \<open>
  The entry that the rule for \<open>faceType\<close> gives for an attribute token: the token after
  the replacement, split at its first \<open>=\<close>.
\<close>

definition face_entry :: "js_lib \<Rightarrow> jsstring \<Rightarrow> jsstring \<times> jsval" where
  "face_entry lib attr =
     (let a = replace attr (str ''faceId'') (str ''id'')
      in (toLowerCase lib (hd (split 61 a)), JStr (trimQuote lib (join (str ''='') (tl (split 61 a))))))"

section \<open>Properties of the encoder\<close>

subsection \<open>The rows of the keyboard\<close>

lemma rel_index_nat: "rel_index n (int i) = min i n"
  by (simp add: rel_index_def)

lemma rel_index_nat4: "rel_index n (int i + 4) = min (i + 4) n"
proof -
  have "int i + 4 = int (i + 4)" by simp
  then show ?thesis by (simp only: rel_index_nat)
qed

lemma slice_take_drop: "slice bs (int i) (int i + 4) = take 4 (drop i bs)"
proof (cases "i + 4 \<le> length bs")
  case True
  then show ?thesis by (simp add: slice_def Let_def rel_index_nat rel_index_nat4 min_def)
next
  case False
  then show ?thesis
    by (cases "i \<le> length bs") (simp_all add: slice_def Let_def rel_index_nat rel_index_nat4 min_def)
qed

lemma ceil4_step: "0 < (k::nat) \<Longrightarrow> (k + 3) div 4 = Suc ((k - 4 + 3) div 4)"
proof (cases "4 \<le> k")
  case True
  then have "k + 3 = (k - 4 + 3) + 4" by simp
  then have "(k + 3) div 4 = ((k - 4 + 3) + 4) div 4" by simp
  also have "\<dots> = Suc ((k - 4 + 3) div 4)" by simp
  finally show ?thesis .
next
  case False
  assume "0 < k"
  with False have "k = 1 \<or> k = 2 \<or> k = 3" by auto
  then show ?thesis by auto
qed

lemma le_ceil4: "(m \<le> (n + 3) div 4) = (4 * m \<le> n + (3::nat))"
  using less_eq_div_iff_mult_less_eq [of 4 m "n + 3"] by (simp add: mult.commute)

lemma concat_rows_from: "concat (rows_from i bs) = drop i bs"
proof (induction i bs rule: rows_from.induct)
  case (1 i bs)
  show ?case
  proof (cases "i < length bs")
    case True
    have "take 4 (drop i bs) @ drop 4 (drop i bs) = drop i bs" by (rule append_take_drop_id)
    then have "drop i bs = take 4 (drop i bs) @ drop (i + 4) bs" by (simp add: add.commute)
    with True 1 show ?thesis by (subst rows_from.simps) (simp add: slice_take_drop)
  next
    case False then show ?thesis by (subst rows_from.simps) simp
  qed
qed

lemma length_rows_from: "length (rows_from i bs) = (length bs - i + 3) div 4"
proof (induction i bs rule: rows_from.induct)
  case (1 i bs)
  show ?case
  proof (cases "i < length bs")
    case True
    then have "0 < length bs - i" by simp
    then have "(length bs - i + 3) div 4 = Suc ((length bs - i - 4 + 3) div 4)"
      by (rule ceil4_step)
    moreover have "length bs - i - 4 = length bs - (i + 4)" by simp
    ultimately show ?thesis using True 1 by (subst rows_from.simps) simp
  next
    case False then show ?thesis by (subst rows_from.simps) simp
  qed
qed

lemma nth_rows_from:
  "j < length (rows_from i bs) \<Longrightarrow> rows_from i bs ! j = take 4 (drop (i + 4 * j) bs)"
proof (induction i bs arbitrary: j rule: rows_from.induct)
  case (1 i bs)
  show ?case
  proof (cases "i < length bs")
    case True
    show ?thesis
    proof (cases j)
      case 0
      with True show ?thesis by (subst rows_from.simps) (simp add: slice_take_drop)
    next
      case (Suc k)
      with True 1(2) have "k < length (rows_from (i + 4) bs)"
        by (subst (asm) rows_from.simps) simp
      with 1(1) True have "rows_from (i + 4) bs ! k = take 4 (drop (i + 4 + 4 * k) bs)" by simp
      with True Suc show ?thesis by (subst rows_from.simps) (simp add: add.assoc)
    qed
  next
    case False with 1(2) show ?thesis by (subst (asm) rows_from.simps) simp
  qed
qed

lemma length_nth_rows_from:
  assumes "j < length (rows_from 0 bs)"
  shows "length (rows_from 0 bs ! j) = min 4 (length bs - 4 * j)"
  using nth_rows_from [OF assms] by simp

lemma full_rows:
  assumes "Suc j < length (rows_from 0 bs)"
  shows "length (rows_from 0 bs ! j) = 4"
proof -
  from assms have "Suc (Suc j) \<le> (length bs + 3) div 4" by (simp add: length_rows_from)
  then have "4 * Suc (Suc j) \<le> length bs + 3" by (simp only: le_ceil4)
  then have "4 * j + 4 \<le> length bs" by simp
  moreover from assms have "j < length (rows_from 0 bs)" by simp
  ultimately show ?thesis by (simp add: length_nth_rows_from)
qed

lemma last_row:
  assumes "bs \<noteq> []"
  shows "1 \<le> length (last (rows_from 0 bs)) \<and> length (last (rows_from 0 bs)) \<le> 4"
proof -
  let ?n = "length (rows_from 0 bs)"
  from assms have len: "0 < length bs" by simp
  have eq: "?n = (length bs + 3) div 4" by (simp add: length_rows_from)
  from len have "4 * 1 \<le> length bs + 3" by linarith
  then have "1 \<le> (length bs + 3) div 4" by (simp only: le_ceil4)
  with eq have n: "0 < ?n" by simp
  then have ne: "rows_from 0 bs \<noteq> []" by auto
  have lt: "?n - 1 < ?n" using n by simp
  from n have "Suc (?n - 1) = ?n" by (simp only: One_nat_def Suc_pred)
  with eq have "Suc (?n - 1) \<le> (length bs + 3) div 4" by (simp only: le_refl)
  then have "4 * Suc (?n - 1) \<le> length bs + 3" by (simp only: le_ceil4)
  then have "4 * (?n - 1) < length bs" by simp
  then have "1 \<le> min 4 (length bs - 4 * (?n - 1))" by simp
  then show ?thesis
    using length_nth_rows_from [OF lt] by (simp add: last_conv_nth [OF ne])
qed

subsection \<open>The routing loop\<close>

lemmas route_defs = route_def route_media_def add_content_def

lemma foldl_route_keeps:
  assumes "\<And>st it. f (route js src st it) = f st"
  shows "f (foldl (route js src) st its) = f st"
  by (induction its arbitrary: st) (simp_all add: assms)

lemma route_seq_time:
  "msg_seq (messages (route js src st it)) = msg_seq (messages st)"
  "timestamp (messages (route js src st it)) = timestamp (messages st)"
  "msg_seq (files (route js src st it)) = msg_seq (files st)"
  "timestamp (files (route js src st it)) = timestamp (files st)"
  by (cases it; (cases "case it of El e \<Rightarrow> e"; simp add: route_defs))+

lemma route_buttons:
  "buttons (route js src st it) = buttons st @ button_of it"
  by (cases it; (cases "case it of El e \<Rightarrow> e"; simp add: route_defs button_of_def))

lemma foldl_route_buttons:
  "buttons (foldl (route js src) st its) = buttons st @ button_data its"
  by (induction its arbitrary: st) (simp_all add: button_data_def route_buttons)

lemma format_fields:
  "msg_seq (messages (format rd js m src)) = Some (randomInt 1 1000000 (rand1 rd))"
  "msg_seq (files (format rd js m src)) = Some (randomInt 1 1000000 (rand2 rd))"
  "timestamp (messages (format rd js m src)) = Some (unix_seconds (now1 rd))"
  "timestamp (files (format rd js m src)) = Some (unix_seconds (now2 rd))"
  by (simp_all add: format_def Let_def empty_dict_def
      foldl_route_keeps [where f = "\<lambda>st. msg_seq (messages st)", OF route_seq_time(1)]
      foldl_route_keeps [where f = "\<lambda>st. timestamp (messages st)", OF route_seq_time(2)]
      foldl_route_keeps [where f = "\<lambda>st. msg_seq (files st)", OF route_seq_time(3)]
      foldl_route_keeps [where f = "\<lambda>st. timestamp (files st)", OF route_seq_time(4)])

lemma format_keyboard:
  "keyboard (messages (format rd js m src)) =
     (if button_data (as_array m) = [] then None else Some (rows_from 0 (button_data (as_array m))))"
proof -
  have k: "\<And>st it. keyboard (messages (route js src st it)) = keyboard (messages st)"
    subgoal for st it
      by (cases it; (cases "case it of El e \<Rightarrow> e"; simp add: route_defs))
    done
  show ?thesis
    by (simp add: format_def Let_def empty_dict_def foldl_route_buttons
        foldl_route_keeps [where f = "\<lambda>st. keyboard (messages st)", OF k])
qed

subsection \<open>The flags\<close>

lemma route_flags:
  assumes "is_at_or_link it"
  shows "hasMessages (route js src st it) = hasMessages st"
    and "hasFiles (route js src st it) = hasFiles st"
    and "is_truthy (content (messages (route js src st it)))"
  using assms
  by (cases it; (cases "case it of El e \<Rightarrow> e";
      simp add: route_defs is_at_or_link_def is_truthy_def show_opt_def str_def
           split: option.splits))+

lemma foldl_route_flags:
  assumes "\<forall>it\<in>set its. is_at_or_link it"
  shows "hasMessages (foldl (route js src) st its) = hasMessages st
       \<and> hasFiles (foldl (route js src) st its) = hasFiles st
       \<and> (its \<noteq> [] \<longrightarrow> is_truthy (content (messages (foldl (route js src) st its))))"
  using assms
proof (induction its arbitrary: st rule: rev_induct)
  case Nil
  show ?case by simp
next
  case (snoc it its)
  then show ?case by (simp add: route_flags)
qed

lemma format_content:
  "content (messages (format rd js m src)) =
     content (messages (foldl (route js src)
       \<lparr>messages = empty_dict\<lparr>msg_type := Some 0, content := Some [],
            msg_id := message_id src,
            msg_seq := Some (randomInt 1 1000000 (rand1 rd)),
            timestamp := Some (unix_seconds (now1 rd))\<rparr>, hasFiles = False, hasMessages = False, brief = [],
            files = empty_dict\<lparr>msg_id := message_id src,
            msg_seq := Some (randomInt 1 1000000 (rand2 rd)),
            timestamp := Some (unix_seconds (now2 rd))\<rparr>, buttons = []\<rparr> (as_array m)))"
  by (simp add: format_def Let_def)

text \<open>
  C10. For a non-empty input of \<open>At\<close> and \<open>Link\<close> elements only, \<open>format\<close> returns
  \<open>hasMessages = false\<close> and \<open>hasFiles = false\<close>, although the content of the transcript
  payload is a non-empty string.
\<close>

theorem format_at_link_only:
  assumes "as_array message \<noteq> []"
    and "\<forall>it\<in>set (as_array message). is_at_or_link it"
  shows "hasMessages (format rd js message source) = False
       \<and> hasFiles (format rd js message source) = False
       \<and> (\<exists>c. content (messages (format rd js message source)) = Some c \<and> c \<noteq> [])"
proof -
  note fl = foldl_route_flags [OF assms(2), of js source]
  have "is_truthy (content (messages (format rd js message source)))"
    using fl assms(1) by (simp add: format_content)
  then have "\<exists>c. content (messages (format rd js message source)) = Some c \<and> c \<noteq> []"
    by (simp add: is_truthy_def split: option.splits)
  moreover have "hasMessages (format rd js message source) = False"
    and "hasFiles (format rd js message source) = False"
    using fl by (simp_all add: format_def Let_def)
  ultimately show ?thesis by simp
qed

theorem format_at_link_only_witness:
  "as_array (Many [El (At None), El (Link (str ''7'')), El (At (Some (str ''42'')))] :: unit sendable) \<noteq> []
   \<and> hasMessages (format \<lparr>rand1 = 0, now1 = 0, rand2 = 0, now2 = 0\<rparr> (\<lambda>d::unit. [])
        (Many [El (At None), El (Link (str ''7'')), El (At (Some (str ''42'')))])
        \<lparr>message_id = None, event_id = None\<rparr>) = False
   \<and> hasFiles (format \<lparr>rand1 = 0, now1 = 0, rand2 = 0, now2 = 0\<rparr> (\<lambda>d::unit. [])
        (Many [El (At None), El (Link (str ''7'')), El (At (Some (str ''42'')))])
        \<lparr>message_id = None, event_id = None\<rparr>) = False
   \<and> content (messages (format \<lparr>rand1 = 0, now1 = 0, rand2 = 0, now2 = 0\<rparr> (\<lambda>d::unit. [])
        (Many [El (At None), El (Link (str ''7'')), El (At (Some (str ''42'')))])
        \<lparr>message_id = None, event_id = None\<rparr>)) = Some (str ''<@everyone><#7><@42>'')"
proof -
  let ?m = "Many [El (At None), El (Link (str ''7'')), El (At (Some (str ''42'')))] :: unit sendable"
  have a: "as_array ?m \<noteq> []" by (simp add: as_array_def)
  have b: "\<forall>it\<in>set (as_array ?m). is_at_or_link it"
    by (simp add: as_array_def is_at_or_link_def)
  have c: "content (messages (format \<lparr>rand1 = 0, now1 = 0, rand2 = 0, now2 = 0\<rparr> (\<lambda>d::unit. [])
        ?m \<lparr>message_id = None, event_id = None\<rparr>)) = Some (str ''<@everyone><#7><@42>'')"
    by (simp add: format_def as_array_def Let_def route_defs empty_dict_def id_or_everyone_def
        is_truthy_def show_opt_def str_def)
  show ?thesis
    using format_at_link_only [OF a b, of "\<lparr>rand1 = 0, now1 = 0, rand2 = 0, now2 = 0\<rparr>"
        "\<lambda>d. []" "\<lparr>message_id = None, event_id = None\<rparr>"] a c
    by simp
qed

subsection \<open>The keyboard\<close>

text \<open>
  C8. When the input has at least one button, the keyboard of the transcript payload is
  the list of the buttons' data cut into rows: \<open>\<lceil>b / 4\<rceil>\<close> rows, every row but the last of
  exactly 4 buttons, the last of 1 to 4, and the rows concatenated are the buttons in
  the order of the input; 5 buttons give rows of sizes 4 and 1.
\<close>

theorem format_keyboard_rows:
  assumes "button_data (as_array message) \<noteq> []"
  shows "\<exists>rows. keyboard (messages (format rd js message source)) = Some rows
     \<and> length rows = (length (button_data (as_array message)) + 3) div 4
     \<and> (\<forall>j. Suc j < length rows \<longrightarrow> length (rows ! j) = 4)
     \<and> 1 \<le> length (last rows) \<and> length (last rows) \<le> 4
     \<and> concat rows = button_data (as_array message)
     \<and> (length (button_data (as_array message)) = 5 \<longrightarrow> map length rows = [4, 1])"
proof -
  let ?bs = "button_data (as_array message)"
  let ?rows = "rows_from 0 ?bs"
  have k: "keyboard (messages (format rd js message source)) = Some ?rows"
    using assms by (simp add: format_keyboard)
  have len: "length ?rows = (length ?bs + 3) div 4" by (simp add: length_rows_from)
  have full: "\<forall>j. Suc j < length ?rows \<longrightarrow> length (?rows ! j) = 4"
    by (simp add: full_rows)
  have cat: "concat ?rows = ?bs" by (simp add: concat_rows_from)
  have five: "map length ?rows = [4, 1]" if l5: "length ?bs = 5"
  proof -
    from l5 have l2: "length ?rows = 2" by (simp add: length_rows_from)
    then have "?rows = [?rows ! 0, ?rows ! 1]"
      by (cases ?rows; simp; cases "tl ?rows"; simp)
    then have "map length ?rows = [length (?rows ! 0), length (?rows ! 1)]"
      by (metis list.simps(8) list.simps(9))
    moreover have "length (?rows ! 0) = 4" using l2 l5 by (simp add: length_nth_rows_from)
    moreover have "length (?rows ! 1) = 1" using l2 l5 by (simp add: length_nth_rows_from)
    ultimately show ?thesis by simp
  qed
  have five': "length ?bs = 5 \<longrightarrow> map length ?rows = [4, 1]" using five by simp
  note lr = last_row [OF assms]
  show ?thesis
  proof (intro exI conjI)
    show "keyboard (messages (format rd js message source)) = Some ?rows" by (rule k)
    show "length ?rows = (length ?bs + 3) div 4" by (rule len)
    show "\<forall>j. Suc j < length ?rows \<longrightarrow> length (?rows ! j) = 4" by (rule full)
    show "1 \<le> length (last ?rows)" using lr by (rule conjunct1)
    show "length (last ?rows) \<le> 4" using lr by (rule conjunct2)
    show "concat ?rows = ?bs" by (rule cat)
    show "length ?bs = 5 \<longrightarrow> map length ?rows = [4, 1]" by (rule five')
  qed
qed

theorem format_keyboard_rows_witness:
  "button_data (as_array (Many [El (Button (1::nat)), El (Button 2), Str (str ''x''), El (Button 3),
      El (Button 4), El (Button 5)])) \<noteq> []
   \<and> keyboard (messages (format \<lparr>rand1 = 0, now1 = 0, rand2 = 0, now2 = 0\<rparr> (\<lambda>d. [])
        (Many [El (Button (1::nat)), El (Button 2), Str (str ''x''), El (Button 3),
           El (Button 4), El (Button 5)])
        \<lparr>message_id = None, event_id = None\<rparr>)) = Some [[1, 2, 3, 4], [5]]"
proof -
  let ?m = "Many [El (Button (1::nat)), El (Button 2), Str (str ''x''), El (Button 3),
      El (Button 4), El (Button 5)]"
  have bs: "button_data (as_array ?m) = [1, 2, 3, 4, 5]"
    by (simp add: button_data_def button_of_def as_array_def)
  then have ne: "button_data (as_array ?m) \<noteq> []" by simp
  from format_keyboard_rows [OF ne, of "\<lparr>rand1 = 0, now1 = 0, rand2 = 0, now2 = 0\<rparr>"
      "\<lambda>d. []" "\<lparr>message_id = None, event_id = None\<rparr>"]
  obtain rows where k: "keyboard (messages (format \<lparr>rand1 = 0, now1 = 0, rand2 = 0, now2 = 0\<rparr>
        (\<lambda>d. []) ?m \<lparr>message_id = None, event_id = None\<rparr>)) = Some rows"
    and cat: "concat rows = [1, 2, 3, 4, 5]" and lens: "map length rows = [4, 1]"
    using bs by auto
  from lens obtain r1 r2 where rows: "rows = [r1, r2]" and l1: "length r1 = 4" and l2: "length r2 = 1"
    by (cases rows; simp; cases "tl rows"; auto)
  from cat rows l1 l2 have "r1 = [1, 2, 3, 4] \<and> r2 = [5]"
    by (cases r1; simp; cases "tl r1"; simp; cases "tl (tl r1)"; simp; cases "tl (tl (tl r1))"; auto)
  with rows k ne show ?thesis by simp
qed

subsection \<open>The message id\<close>

lemma route_msg_id_messages:
  assumes "\<not> is_reply it"
  shows "msg_id (messages (route js src st it)) = msg_id (messages st)"
  using assms
  by (cases it; (cases "case it of El e \<Rightarrow> e"; simp add: route_defs is_reply_def))

lemma route_msg_id_files:
  assumes "\<not> is_reply it" and "\<not> is_media it"
  shows "msg_id (files (route js src st it)) = msg_id (files st)"
  using assms
  by (cases it; (cases "case it of El e \<Rightarrow> e"; simp add: route_defs is_reply_def is_media_def))

lemma route_msg_id_media:
  assumes "is_media it"
  shows "msg_id (files (route js src st it)) = message_id src"
  using assms
  by (cases it; (cases "case it of El e \<Rightarrow> e"; simp add: route_defs is_media_def))

lemma route_msg_id_no_reply:
  assumes "\<not> is_reply it" and "msg_id (files st) = message_id src"
  shows "msg_id (files (route js src st it)) = message_id src"
  using assms route_msg_id_files [of it js src st] route_msg_id_media [of it js src st]
  by (cases "is_media it") simp_all

lemma foldl_msg_id_messages:
  assumes "\<forall>it\<in>set its. \<not> is_reply it"
  shows "msg_id (messages (foldl (route js src) st its)) = msg_id (messages st)"
  using assms by (induction its arbitrary: st) (simp_all add: route_msg_id_messages)

lemma foldl_msg_id_files:
  assumes "\<forall>it\<in>set its. \<not> is_reply it" and "\<forall>it\<in>set its. \<not> is_media it"
  shows "msg_id (files (foldl (route js src) st its)) = msg_id (files st)"
  using assms by (induction its arbitrary: st) (simp_all add: route_msg_id_files)

lemma foldl_msg_id_no_reply:
  assumes "\<forall>it\<in>set its. \<not> is_reply it" and "msg_id (files st) = message_id src"
  shows "msg_id (files (foldl (route js src) st its)) = message_id src"
  using assms by (induction its arbitrary: st) (simp_all add: route_msg_id_no_reply)

lemma format_msg_id:
  "msg_id (messages (format rd js m src)) =
     msg_id (messages (foldl (route js src)
       \<lparr>messages = empty_dict\<lparr>msg_type := Some 0, content := Some [],
            msg_id := message_id src,
            msg_seq := Some (randomInt 1 1000000 (rand1 rd)),
            timestamp := Some (unix_seconds (now1 rd))\<rparr>, hasFiles = False, hasMessages = False, brief = [],
            files = empty_dict\<lparr>msg_id := message_id src,
            msg_seq := Some (randomInt 1 1000000 (rand2 rd)),
            timestamp := Some (unix_seconds (now2 rd))\<rparr>, buttons = []\<rparr> (as_array m)))"
  "msg_id (files (format rd js m src)) =
     msg_id (files (foldl (route js src)
       \<lparr>messages = empty_dict\<lparr>msg_type := Some 0, content := Some [],
            msg_id := message_id src,
            msg_seq := Some (randomInt 1 1000000 (rand1 rd)),
            timestamp := Some (unix_seconds (now1 rd))\<rparr>, hasFiles = False, hasMessages = False, brief = [],
            files = empty_dict\<lparr>msg_id := message_id src,
            msg_seq := Some (randomInt 1 1000000 (rand2 rd)),
            timestamp := Some (unix_seconds (now2 rd))\<rparr>, buttons = []\<rparr> (as_array m)))"
  by (simp_all add: format_def Let_def)

text \<open>
  A media element after the last reply sets the \<open>msg_id\<close> of the file payload back to the
  message id of the quote reference (\<open>files.msg_id = source?.message_id\<close>).
\<close>

lemma format_media_after_reply:
  assumes "as_array message = pre @ [it] @ post"
    and "is_media it"
    and "\<forall>x\<in>set post. \<not> is_reply x"
  shows "msg_id (files (format rd js message source)) = message_id source"
  using assms
  by (simp add: format_msg_id foldl_msg_id_no_reply route_msg_id_media)

text \<open>
  C1 (amended). When the input has a reply, with \<open>mid\<close> the message id of the last one:
  the \<open>msg_id\<close> of the transcript payload is \<open>mid\<close>, and the \<open>msg_id\<close> of the file payload
  is \<open>mid\<close> provided that no image, audio or video element comes after that reply.
\<close>

theorem format_reply_msg_id:
  assumes "as_array message = pre @ [El (Reply mid)] @ post"
    and "\<forall>it\<in>set post. \<not> is_reply it"
  shows "msg_id (messages (format rd js message source)) = Some mid
       \<and> ((\<forall>it\<in>set post. \<not> is_media it) \<longrightarrow>
            msg_id (files (format rd js message source)) = Some mid)"
  using assms
  by (simp add: format_msg_id foldl_msg_id_messages foldl_msg_id_files route_def)

theorem format_reply_msg_id_witness:
  "as_array (Many [El (Image (str ''f'')), El (Reply (str ''A'')), El (Reply (str ''B'')), Str (str ''hi'')])
     = [El (Image (str ''f'')), El (Reply (str ''A''))] @ [El (Reply (str ''B''))] @ [Str (str ''hi'') :: unit item]
   \<and> msg_id (messages (format \<lparr>rand1 = 0, now1 = 0, rand2 = 0, now2 = 0\<rparr> (\<lambda>d::unit. [])
        (Many [El (Image (str ''f'')), El (Reply (str ''A'')), El (Reply (str ''B'')), Str (str ''hi'')])
        \<lparr>message_id = Some (str ''S''), event_id = None\<rparr>)) = Some (str ''B'')
   \<and> msg_id (files (format \<lparr>rand1 = 0, now1 = 0, rand2 = 0, now2 = 0\<rparr> (\<lambda>d::unit. [])
        (Many [El (Image (str ''f'')), El (Reply (str ''A'')), El (Reply (str ''B'')), Str (str ''hi'')])
        \<lparr>message_id = Some (str ''S''), event_id = None\<rparr>)) = Some (str ''B'')"
proof -
  let ?m = "Many [El (Image (str ''f'')), El (Reply (str ''A'')), El (Reply (str ''B'')), Str (str ''hi'')] :: unit sendable"
  have a: "as_array ?m = [El (Image (str ''f'')), El (Reply (str ''A''))] @ [El (Reply (str ''B''))] @ [Str (str ''hi'')]"
    by (simp add: as_array_def)
  have b: "\<forall>it\<in>set [Str (str ''hi'') :: unit item]. \<not> is_reply it" by (simp add: is_reply_def)
  have c: "\<forall>it\<in>set [Str (str ''hi'') :: unit item]. \<not> is_media it" by (simp add: is_media_def)
  from format_reply_msg_id [OF a b, of "\<lparr>rand1 = 0, now1 = 0, rand2 = 0, now2 = 0\<rparr>" "\<lambda>d. []"
      "\<lparr>message_id = Some (str ''S''), event_id = None\<rparr>"] a c
  show ?thesis by simp
qed

text \<open>
  As stated, C1 fails: an image after the reply leaves the file payload with the message
  id of the quote reference.
\<close>

theorem format_reply_then_media_counterexample:
  "msg_id (files (format \<lparr>rand1 = 0, now1 = 0, rand2 = 0, now2 = 0\<rparr> (\<lambda>d::unit. [])
        (Many [El (Reply (str ''A'')), El (Image (str ''f''))])
        \<lparr>message_id = Some (str ''S''), event_id = None\<rparr>)) = Some (str ''S'')
   \<and> Some (str ''S'') \<noteq> Some (str ''A'')"
  by (simp add: format_def as_array_def Let_def route_defs empty_dict_def str_def)

subsection \<open>The clock and the random source\<close>

text \<open>
  C4 (amended). The clock is read once for each payload: the timestamp of the transcript
  payload is the first reading in seconds, that of the file payload the second reading
  in seconds, and the two timestamps are equal exactly when both readings round to the
  same second.
\<close>

theorem format_timestamps:
  "timestamp (messages (format rd js message source)) = Some (unix_seconds (now1 rd))
   \<and> timestamp (files (format rd js message source)) = Some (unix_seconds (now2 rd))
   \<and> (timestamp (messages (format rd js message source)) = timestamp (files (format rd js message source)))
       = (unix_seconds (now1 rd) = unix_seconds (now2 rd))"
  by (simp add: format_fields)

text \<open>As stated, C4 fails when the clock advances by a millisecond between the reads.\<close>

theorem format_timestamps_counterexample:
  "timestamp (messages (format \<lparr>rand1 = 0, now1 = 1499, rand2 = 0, now2 = 1500\<rparr> (\<lambda>d::unit. [])
        (Many [Str (str ''hi'')]) \<lparr>message_id = None, event_id = None\<rparr>)) = Some 1
   \<and> timestamp (files (format \<lparr>rand1 = 0, now1 = 1499, rand2 = 0, now2 = 1500\<rparr> (\<lambda>d::unit. [])
        (Many [Str (str ''hi'')]) \<lparr>message_id = None, event_id = None\<rparr>)) = Some 2"
  by (simp add: format_fields unix_seconds_def)

lemma randomInt_range: "1 \<le> randomInt 1 1000000 x \<and> randomInt 1 1000000 x \<le> 999999"
proof -
  have "0 \<le> int x mod 999999" and "int x mod 999999 < 999999" by simp_all
  then show ?thesis by (simp add: randomInt_def)
qed

lemma randomInt_onto:
  assumes "1 \<le> a" and "a \<le> 999999"
  shows "randomInt 1 1000000 (nat (a - 1)) = a"
  using assms by (simp add: randomInt_def)

text \<open>
  C5 (amended). The two sequence numbers come from two draws, and the pairs of values
  that the draws can give are exactly the pairs of integers of the range from 1 to
  999,999: the bound 1,000,000 of \<open>randomInt\<close> is exclusive.
\<close>

theorem format_msg_seq_range:
  "(\<exists>r1 r2. msg_seq (messages (format (rd\<lparr>rand1 := r1, rand2 := r2\<rparr>) js message source)) = Some a
          \<and> msg_seq (files (format (rd\<lparr>rand1 := r1, rand2 := r2\<rparr>) js message source)) = Some b)
   = (1 \<le> a \<and> a \<le> 999999 \<and> 1 \<le> b \<and> b \<le> 999999)"
proof
  assume "\<exists>r1 r2. msg_seq (messages (format (rd\<lparr>rand1 := r1, rand2 := r2\<rparr>) js message source)) = Some a
          \<and> msg_seq (files (format (rd\<lparr>rand1 := r1, rand2 := r2\<rparr>) js message source)) = Some b"
  then obtain r1 r2 where "a = randomInt 1 1000000 r1" and "b = randomInt 1 1000000 r2"
    by (auto simp: format_fields)
  then show "1 \<le> a \<and> a \<le> 999999 \<and> 1 \<le> b \<and> b \<le> 999999"
    using randomInt_range [of r1] randomInt_range [of r2] by simp
next
  assume "1 \<le> a \<and> a \<le> 999999 \<and> 1 \<le> b \<and> b \<le> 999999"
  then have "randomInt 1 1000000 (nat (a - 1)) = a" and "randomInt 1 1000000 (nat (b - 1)) = b"
    by (simp_all add: randomInt_onto)
  then have "msg_seq (messages (format (rd\<lparr>rand1 := nat (a - 1), rand2 := nat (b - 1)\<rparr>) js message source)) = Some a
      \<and> msg_seq (files (format (rd\<lparr>rand1 := nat (a - 1), rand2 := nat (b - 1)\<rparr>) js message source)) = Some b"
    by (simp add: format_fields)
  then show "\<exists>r1 r2. msg_seq (messages (format (rd\<lparr>rand1 := r1, rand2 := r2\<rparr>) js message source)) = Some a
          \<and> msg_seq (files (format (rd\<lparr>rand1 := r1, rand2 := r2\<rparr>) js message source)) = Some b"
    by blast
qed

text \<open>As stated, C5 fails: no draw gives 1,000,000.\<close>

theorem format_msg_seq_counterexample:
  "\<not> (\<exists>rd. msg_seq (messages (format rd (\<lambda>d::unit. []) (Many [Str (str ''hi'')])
        \<lparr>message_id = None, event_id = None\<rparr>)) = Some 1000000)"
proof
  assume "\<exists>rd. msg_seq (messages (format rd (\<lambda>d::unit. []) (Many [Str (str ''hi'')])
        \<lparr>message_id = None, event_id = None\<rparr>)) = Some 1000000"
  then obtain rd :: readings where "randomInt 1 1000000 (rand1 rd) = 1000000"
    by (auto simp: format_fields)
  with randomInt_range [of "rand1 rd"] show False by simp
qed

section \<open>Properties of the decoder\<close>

subsection \<open>The scan loop ends\<close>

lemma takeWhile_stops:
  assumes "length (takeWhile P xs) < length xs"
  shows "\<exists>rest. xs = takeWhile P xs @ hd (dropWhile P xs) # rest \<and> \<not> P (hd (dropWhile P xs))"
proof -
  have split: "xs = takeWhile P xs @ dropWhile P xs" by simp
  with assms have ne: "dropWhile P xs \<noteq> []" by (metis append_Nil2 less_irrefl)
  then have "dropWhile P xs = hd (dropWhile P xs) # tl (dropWhile P xs)" by simp
  with split have "xs = takeWhile P xs @ hd (dropWhile P xs) # tl (dropWhile P xs)" by simp
  moreover from ne have "\<not> P (hd (dropWhile P xs))" by (rule hd_dropWhile)
  ultimately show ?thesis by blast
qed

lemma match_alt_prefix:
  assumes "match_alt a s = Some m"
  shows "m \<noteq> [] \<and> take (length m) s = m"
proof (cases a)
  case (fields opn closing least)
  show ?thesis
  proof (cases s)
    case Nil
    with assms fields show ?thesis by simp
  next
    case (Cons c cs)
    let ?run = "takeWhile (\<lambda>x. x \<noteq> closing) cs"
    from assms fields Cons have m: "m = c # ?run @ [closing]" and lt: "length ?run < length cs"
      by (auto simp: Let_def split: if_splits)
    from takeWhile_stops [OF lt] obtain rest where
      cs: "cs = ?run @ hd (dropWhile (\<lambda>x. x \<noteq> closing) cs) # rest"
      and "\<not> hd (dropWhile (\<lambda>x. x \<noteq> closing) cs) \<noteq> closing" by blast
    then have "cs = ?run @ closing # rest" by simp
    then have "take (Suc (length ?run)) cs = ?run @ [closing]"
      by (metis append.assoc append_Cons append_Nil append_eq_conv_conj length_append_singleton)
    with m Cons show ?thesis by simp
  qed
qed

lemma match_here_prefix:
  "match_here as s = Some m \<Longrightarrow> m \<noteq> [] \<and> take (length m) s = m"
  by (induction as) (auto split: option.splits dest: match_alt_prefix)

lemma regex_match_occurs:
  "regex_match s = Some m \<Longrightarrow>
     m \<noteq> [] \<and> (\<exists>i. i + length m \<le> length s \<and> take (length m) (drop i s) = m)"
proof (induction s)
  case Nil
  then show ?case by simp
next
  case (Cons c cs)
  show ?case
  proof (cases "match_here alternatives (c # cs)")
    case None
    with Cons.prems have "regex_match cs = Some m" by simp
    with Cons.IH obtain i where "m \<noteq> []" and "i + length m \<le> length cs"
      and "take (length m) (drop i cs) = m" by blast
    then have "Suc i + length m \<le> length (c # cs) \<and> take (length m) (drop (Suc i) (c # cs)) = m"
      by simp
    with \<open>m \<noteq> []\<close> show ?thesis by blast
  next
    case (Some m')
    with Cons.prems have "m' = m" by simp
    with Some have p: "m \<noteq> [] \<and> take (length m) (c # cs) = m" by (simp add: match_here_prefix)
    then have "length (take (length m) (c # cs)) = length m" by simp
    then have "length m \<le> length (c # cs)" by simp
    with p have "0 + length m \<le> length (c # cs) \<and> take (length m) (drop 0 (c # cs)) = m" by simp
    with p show ?thesis by blast
  qed
qed

lemma find_sub_complete:
  "i + length m \<le> length s \<Longrightarrow> take (length m) (drop i s) = m \<Longrightarrow> \<exists>j. find_sub m s = Some j"
proof (induction s arbitrary: i)
  case Nil
  then show ?case by simp
next
  case (Cons c cs)
  show ?case
  proof (cases "take (length m) (c # cs) = m")
    case True
    then show ?thesis by simp
  next
    case False
    with Cons.prems obtain i' where i: "i = Suc i'" by (cases i) auto
    with Cons.prems have "i' + length m \<le> length cs" and "take (length m) (drop i' cs) = m"
      by simp_all
    with Cons.IH obtain j where "find_sub m cs = Some j" by blast
    with False show ?thesis by simp
  qed
qed

lemma find_sub_sound:
  "find_sub m s = Some j \<Longrightarrow> j + length m \<le> length s \<and> take (length m) (drop j s) = m"
proof (induction s arbitrary: j)
  case Nil
  then show ?case by (simp split: if_splits)
next
  case (Cons c cs)
  show ?case
  proof (cases "take (length m) (c # cs) = m")
    case True
    with Cons.prems have j: "j = 0" by simp
    from True have "length (take (length m) (c # cs)) = length m" by simp
    then have "length m \<le> length (c # cs)" by simp
    with True j show ?thesis by simp
  next
    case False
    with Cons.prems obtain j' where "find_sub m cs = Some j'" and "j = Suc j'"
      by (auto split: if_splits)
    with Cons.IH [of j'] show ?thesis by simp
  qed
qed

lemma slice_prefix: "j \<le> length t \<Longrightarrow> slice t 0 (int j) = take j t"
  by (simp add: slice_def rel_index_def Let_def)

lemma slice_from_suffix: "slice_from t (int j + int k) = drop (j + k) t"
proof -
  have "slice_from t (int (j + k)) = drop (j + k) t"
    by (simp add: slice_from_def slice_def rel_index_def Let_def min_def del: of_nat_add)
  then show ?thesis by simp
qed

lemma consume_splits:
  assumes "consume t = Some (prev, m, rest)"
  shows "m \<noteq> [] \<and> t = prev @ m @ rest"
proof -
  from assms obtain m' where rm: "regex_match t = Some m'"
    by (auto simp: consume_def split: option.splits)
  with assms have ne: "m' \<noteq> []" by (auto simp: consume_def split: if_splits)
  from regex_match_occurs [OF rm] obtain i where "i + length m' \<le> length t"
    and "take (length m') (drop i t) = m'" by blast
  then obtain j where fs: "find_sub m' t = Some j" using find_sub_complete by blast
  from find_sub_sound [OF fs] have le: "j + length m' \<le> length t"
    and occ: "take (length m') (drop j t) = m'" by simp_all
  from fs have ix: "indexOf t m' = int j" by (simp add: indexOf_def)
  from le have jle: "j \<le> length t" by simp
  from assms rm ne ix have "m = m'" and "prev = slice t 0 (int j)"
    and "rest = slice_from t (int j + int (length m'))"
    by (auto simp: consume_def Let_def)
  then have m: "m = m'" and prev: "prev = take j t" and rest: "rest = drop (j + length m') t"
    using jle by (simp_all only: slice_prefix slice_from_suffix)
  have a: "take j t @ drop j t = t" by (rule append_take_drop_id)
  have b: "take (length m') (drop j t) @ drop (length m') (drop j t) = drop j t"
    by (rule append_take_drop_id)
  have c: "drop (length m') (drop j t) = drop (j + length m') t" by (simp add: add.commute)
  from b occ c have "m' @ drop (j + length m') t = drop j t" by simp
  with a have "t = take j t @ m' @ drop (j + length m') t" by simp
  with m prev rest ne show ?thesis by simp
qed

lemma scan_body_shrinks:
  assumes "scan_body lib p t r b = Continue t' r' b'"
  shows "length t' < length t"
proof -
  from assms obtain prev m where "consume t = Some (prev, m, t')"
    by (auto simp: scan_body_def Let_def split: option.splits if_splits sum.splits)
  from consume_splits [OF this] show ?thesis
    by (metis add_diff_cancel_right' diff_less length_append length_greater_0_conv trans_less_add2 zero_less_diff less_add_same_cancel2 add.commute)
qed

lemma scan_returns: "\<exists>x. scan lib p t r b = Some x"
proof (induction "length t" arbitrary: t r b rule: less_induct)
  case less
  show ?case
  proof (cases "scan_body lib p t r b")
    case Break
    then show ?thesis by (subst scan.simps) simp
  next
    case (Raise e)
    then show ?thesis by (subst scan.simps) simp
  next
    case (Continue t' r' b')
    then have "length t' < length t" by (rule scan_body_shrinks)
    then obtain x where "scan lib p t' r' b' = Some x" using less by blast
    with Continue show ?thesis by (subst scan.simps) simp
  qed
qed

lemma parse_returns: "\<exists>x. parse lib p = Some x"
proof -
  obtain x where x: "scan lib p (case content' p of None \<Rightarrow> [] | Some s \<Rightarrow> s) [] [] = Some x"
    using scan_returns by blast
  show ?thesis
  proof (cases x)
    case (Inl e)
    with x show ?thesis by (simp add: parse_def)
  next
    case (Inr y)
    obtain t r b where "y = (t, r, b)" by (cases y)
    with x Inr show ?thesis by (simp add: parse_def Let_def)
  qed
qed

lemmas string_defs = str_def startsWith_def indexOf_def replace_def slice_def slice_from_def
  rel_index_def Let_def

lemmas decode_defs = parse_def scan_body_def consume_def alternatives_def tag_elem_def
  resolve_def attr_entry_def is_shorthand_def is_lower_def is_digit_def spread_def
  fromEntries_def array_join_def text_elem_def quoted_elem_def obj_get_def

text \<open>
  C9 (amended). The scan loop ends on every input. An iteration that finds a match
  consumes the text before the match and the match, which is not empty, so the template
  that is left is strictly shorter; an iteration that finds none leaves the loop. Hence
  the loop and \<open>parse\<close> end for every payload: no call runs forever.
\<close>

theorem parse_terminates:
  "(\<forall>t prev m rest. consume t = Some (prev, m, rest) \<longrightarrow>
       m \<noteq> [] \<and> t = prev @ m @ rest \<and> length rest < length t)
   \<and> (\<forall>t r b. \<exists>x. scan lib p t r b = Some x)
   \<and> (\<exists>x. parse lib p = Some x)"
proof (intro conjI allI impI)
  fix t prev m rest
  assume "consume t = Some (prev, m, rest)"
  then have s: "m \<noteq> [] \<and> t = prev @ m @ rest" by (rule consume_splits)
  then show "m \<noteq> []" and "t = prev @ m @ rest" by simp_all
  from s have "length t = length (prev @ m @ rest)" by simp
  moreover from s have "0 < length m" by simp
  ultimately show "length rest < length t" by simp
next
  fix t r b
  show "\<exists>x. scan lib p t r b = Some x" by (rule scan_returns)
next
  show "\<exists>x. parse lib p = Some x" by (rule parse_returns)
qed

theorem parse_terminates_witness:
  "consume (str ''ab<c>d'') = Some (str ''ab'', str ''<c>'', str ''d'')
   \<and> str ''<c>'' \<noteq> []
   \<and> str ''ab<c>d'' = str ''ab'' @ str ''<c>'' @ str ''d''
   \<and> length (str ''d'') < length (str ''ab<c>d'')
   \<and> (\<exists>x. parse ascii_lib \<lparr>content' = Some (str ''ab<c>d''), attachments = None, mentions = None\<rparr> = Some x)"
proof -
  have c: "consume (str ''ab<c>d'') = Some (str ''ab'', str ''<c>'', str ''d'')" by (simp add: consume_def alternatives_def string_defs)
  note T = parse_terminates [of ascii_lib
      "\<lparr>content' = Some (str ''ab<c>d''), attachments = None, mentions = None\<rparr>"]
  note A = T [THEN conjunct1, rule_format, OF c]
  note B = T [THEN conjunct2, THEN conjunct2]
  show ?thesis
    by (rule conjI [OF c conjI [OF A [THEN conjunct1] conjI [OF A [THEN conjunct2, THEN conjunct1]
          conjI [OF A [THEN conjunct2, THEN conjunct2] B]]]])
qed

text \<open>
  As stated, C9 fails: \<open>parse\<close> is not a total function of its input. On the template
  \<open>hi <@everyone>\<close> the call ends, but by an error, and gives no result.
\<close>

theorem parse_total_counterexample:
  "parse ascii_lib \<lparr>content' = Some (str ''hi <@everyone>''), attachments = None, mentions = Some []\<rparr>
     = Some (Inl TypeError)
   \<and> \<not> (\<exists>r. parse ascii_lib
          \<lparr>content' = Some (str ''hi <@everyone>''), attachments = None, mentions = Some []\<rparr>
        = Some (Inr r))"
proof -
  have e: "parse ascii_lib
      \<lparr>content' = Some (str ''hi <@everyone>''), attachments = None, mentions = Some []\<rparr>
    = Some (Inl TypeError)"
    by (simp add: scan.simps decode_defs string_defs)
  then show ?thesis by simp
qed

subsection \<open>Tags\<close>

lemma split_not_Nil: "split sep s \<noteq> []"
  by (induction s) (auto split: list.splits)

lemma attr_entry_string:
  "attr_entry lib (JStr s) = Inr (toLowerCase lib (hd (split 61 s)),
     JStr (trimQuote lib (join (str ''='') (tl (split 61 s)))))"
  using split_not_Nil [of 61 s] by (cases "split 61 s") (simp_all add: attr_entry_def)

lemma map_result_total:
  assumes "\<And>x. f x = Inr (g x)"
  shows "map_result f xs = Inr (map g xs)"
  by (induction xs) (simp_all add: assms)

lemma face_entries:
  "map_result (attr_entry lib) (map (\<lambda>attr. JStr (replace attr (str ''faceId'') (str ''id''))) attrs)
     = Inr (map (face_entry lib) attrs)"
proof -
  have "map_result (attr_entry lib \<circ> (\<lambda>attr. JStr (replace attr (str ''faceId'') (str ''id'')))) attrs
      = Inr (map (face_entry lib) attrs)"
    by (rule map_result_total) (simp add: attr_entry_string face_entry_def Let_def)
  moreover have "map_result f (map h xs) = map_result (f \<circ> h) xs" for f :: "jsval \<Rightarrow> error + jsstring \<times> jsval"
      and h :: "jsstring \<Rightarrow> jsval" and xs
    by (induction xs) (simp_all split: sum.splits)
  ultimately show ?thesis by simp
qed

lemma array_join_strings: "array_join sep (map JStr xs) = join sep xs"
  by (simp add: array_join_def comp_def)

lemma keys_obj_put: "set (map fst (obj_put ob (k, v))) = insert k (set (map fst ob))"
proof (induction ob)
  case Nil
  show ?case by simp
next
  case (Cons e ob)
  obtain k' v' where e: "e = (k', v')" by (cases e)
  show ?case
  proof (cases "k' = k")
    case True
    with e show ?thesis by simp
  next
    case False
    with e Cons show ?thesis by (simp add: insert_commute)
  qed
qed

lemma keys_foldl_obj_put: "set (map fst (foldl obj_put ob es)) = set (map fst ob) \<union> set (map fst es)"
proof (induction es arbitrary: ob)
  case Nil
  show ?case by simp
next
  case (Cons e es)
  obtain k v where "e = (k, v)" by (cases e)
  with Cons [of "obj_put ob (k, v)"] keys_obj_put [of ob k v] show ?case by simp
qed

lemma map_of_obj_put_other: "k' \<noteq> k \<Longrightarrow> map_of (obj_put ob (k, v)) k' = map_of ob k'"
  by (induction ob) auto

lemma map_of_foldl_obj_put_other:
  "k' \<notin> set (map fst es) \<Longrightarrow> map_of (foldl obj_put ob es) k' = map_of ob k'"
proof (induction es arbitrary: ob)
  case Nil
  show ?case by simp
next
  case (Cons e es)
  obtain k v where "e = (k, v)" by (cases e)
  with Cons show ?case by (simp add: map_of_obj_put_other)
qed

lemma spread_keeps_type:
  assumes "k \<notin> set (map fst entries)"
  shows "obj_get (spread [(k, v)] (fromEntries entries)) k = v"
proof -
  have "set (map fst (fromEntries entries)) = set (map fst entries)"
    by (simp only: fromEntries_def keys_foldl_obj_put) simp
  with assms have "k \<notin> set (map fst (fromEntries entries))" by simp
  then have "map_of (spread [(k, v)] (fromEntries entries)) k = map_of [(k, v)] k"
    unfolding spread_def by (rule map_of_foldl_obj_put_other)
  then show ?thesis by (simp add: obj_get_def)
qed

lemma find_sub_first:
  "take (length m) (drop i s) = m \<Longrightarrow> i + length m \<le> length s \<Longrightarrow>
   \<forall>j<i. take (length m) (drop j s) \<noteq> m \<Longrightarrow> find_sub m s = Some i"
proof (induction s arbitrary: i)
  case Nil
  then show ?case by simp
next
  case (Cons c cs)
  show ?case
  proof (cases i)
    case 0
    with Cons.prems show ?thesis by simp
  next
    case (Suc i')
    with Cons.prems have "take (length m) (c # cs) \<noteq> m" by fastforce
    moreover from Suc Cons.prems have "take (length m) (drop i' cs) = m"
      and "i' + length m \<le> length cs" by simp_all
    moreover from Suc Cons.prems have "\<forall>j<i'. take (length m) (drop j cs) \<noteq> m" by fastforce
    ultimately show ?thesis using Cons.IH [of i'] Suc by simp
  qed
qed

lemma replace_first_occurrence:
  assumes "\<forall>j<length u. take (length pat) (drop j (u @ pat @ v)) \<noteq> pat"
  shows "replace (u @ pat @ v) pat rep = u @ rep @ v"
proof -
  have "find_sub pat (u @ pat @ v) = Some (length u)"
    using assms by (intro find_sub_first) simp_all
  then show ?thesis by (simp add: replace_def)
qed

lemma replace_absent:
  assumes "\<forall>j. take (length pat) (drop j s) \<noteq> pat"
  shows "replace s pat rep = s"
proof (cases "find_sub pat s")
  case None
  then show ?thesis by (simp add: replace_def)
next
  case (Some j)
  from find_sub_sound [OF this] assms show ?thesis by blast
qed

lemma length_faceId: "length (str ''faceId'') = 6"
  by (simp add: str_def)

text \<open>The tag \<open>@everyone\<close> raises, whatever follows its type.\<close>

lemma tag_elem_everyone:
  assumes "split 44 (slice m 1 (-1)) = str ''@everyone'' # attrs"
  shows "tag_elem lib p m = Inl TypeError"
  using assms by (simp add: tag_elem_def resolve_def attr_entry_def string_defs)

text \<open>
  C2. A template with the tag \<open><@everyone>\<close> should decode to an \<open>at\<close> element with
  \<open>{all: true}\<close>. The code raises instead: the one attribute token is the array
  \<open>['all', true]\<close>, and the entries are built with \<open>attr.split\<close>, which an array does not
  have.
\<close>

theorem parse_everyone_raises:
  "parse lib \<lparr>content' = Some (str ''<@everyone>''), attachments = ats, mentions = ms\<rparr>
     = Some (Inl TypeError)"
  by (simp add: scan.simps decode_defs string_defs)

text \<open>With a list of mentions that has no record of the id, the element has the type only.\<close>

lemma tag_elem_unmatched_mention:
  assumes "split 44 (slice m 1 (-1)) = (str ''@!'' @ ident) # attrs"
    and "mentions p = Some ms"
    and "find (\<lambda>u. obj_get u (str ''id'') = JStr ident) ms = None"
  shows "tag_elem lib p m = Inr ([(str ''type'', JStr (str ''at''))], str ''<at:>'')"
  using assms
  by (simp add: tag_elem_def resolve_def string_defs spread_def fromEntries_def array_join_def min_def)

text \<open>
  C3. A tag \<open><@!ID>\<close> with no mention record of that id should decode to an \<open>at\<close>
  element without attributes, also when the payload has no list of mentions. With no
  list the code raises: \<open>payload.mentions.find\<close> reads a property of undefined.
\<close>

theorem parse_absent_mentions_raises:
  "parse lib \<lparr>content' = Some (str ''<@!1>''), attachments = ats, mentions = None\<rparr>
     = Some (Inl TypeError)"
  by (simp add: scan.simps decode_defs string_defs)

text \<open>
  An iteration whose match is a quoted run: the element has the run under \<open>data.text\<close>,
  the brief gets the run as it is.
\<close>

lemma scan_body_quoted:
  assumes "consume t = Some (prev, m, rest)"
    and "\<not> startsWith m (str ''<'')"
  shows "scan_body lib p t r b =
           Continue rest ((if prev \<noteq> [] then r @ [text_elem prev] else r) @ [quoted_elem m])
             ((if prev \<noteq> [] then b @ prev else b) @ m)"
  using assms by (simp add: scan_body_def Let_def)

lemma quoted_elem_fields:
  "obj_get (quoted_elem m) (str ''text'') = JUndefined"
  "obj_get (quoted_elem m) (str ''data'') = JObj [(str ''text'', JStr m)]"
  "obj_get (text_elem m) (str ''text'') = JStr m"
  by (simp_all add: quoted_elem_def text_elem_def obj_get_def str_def)

text \<open>
  C7. A quoted run should decode to a text element whose field \<open>text\<close> is the run. The
  element the code appends has the run under \<open>data.text\<close>, and no field \<open>text\<close>; the brief
  gets the run as it is.
\<close>

theorem parse_quoted_run:
  "parse lib \<lparr>content' = Some [34, 104, 105, 34], attachments = None, mentions = ms\<rparr>
     = Some (Inr ([[(str ''type'', JStr (str ''text'')),
                    (str ''data'', JObj [(str ''text'', JStr [34, 104, 105, 34])])]],
                  [34, 104, 105, 34],
                  \<lparr>content' = Some [34, 104, 105, 34], attachments = None, mentions = None\<rparr>))
     \<and> obj_get [(str ''type'', JStr (str ''text'')),
                    (str ''data'', JObj [(str ''text'', JStr [34, 104, 105, 34])])] (str ''text'') = JUndefined"
  by (simp add: scan.simps decode_defs string_defs)

text \<open>
  C6 (amended). For a tag whose type starts with \<open>faceType\<close>, \<open>parse\<close> returns the element
  built from the attribute tokens after the replacement, and the marker \<open><face:...>\<close> of
  those tokens. The element has the type \<open>face\<close> provided that no token has the key
  \<open>type\<close> after lower-casing. The replacement acts on the whole token: a token in which
  \<open>faceId\<close> does not occur is unchanged, and in any other token the first occurrence of
  \<open>faceId\<close>, in the key or in the value, becomes \<open>id\<close>.
\<close>

theorem tag_elem_faceType:
  assumes "split 44 (slice m 1 (-1)) = ty # attrs"
    and "startsWith ty (str ''faceType'')"
  shows "tag_elem lib p m =
           Inr (spread [(str ''type'', JStr (str ''face''))] (fromEntries (map (face_entry lib) attrs)),
                str ''<face:'' @ join (str '','') (map (\<lambda>a. replace a (str ''faceId'') (str ''id'')) attrs)
                  @ str ''>'')
     \<and> (str ''type'' \<notin> set (map fst (map (face_entry lib) attrs)) \<longrightarrow>
          obj_get (spread [(str ''type'', JStr (str ''face''))] (fromEntries (map (face_entry lib) attrs)))
            (str ''type'') = JStr (str ''face''))
     \<and> (\<forall>a. (\<forall>j. take 6 (drop j a) \<noteq> str ''faceId'') \<longrightarrow>
            replace a (str ''faceId'') (str ''id'') = a)
     \<and> (\<forall>u v. (\<forall>j<length u. take 6 (drop j (u @ str ''faceId'' @ v)) \<noteq> str ''faceId'') \<longrightarrow>
            replace (u @ str ''faceId'' @ v) (str ''faceId'') (str ''id'') = u @ str ''id'' @ v)"
proof (intro conjI allI impI)
  have mk: "str ''<face:'' = str ''<'' @ str ''face'' @ str '':''" by (simp add: str_def)
  have "resolve p ty attrs =
      Inr (str ''face'', map (\<lambda>attr. JStr (replace attr (str ''faceId'') (str ''id''))) attrs)"
    using assms(2) by (simp add: resolve_def)
  moreover have "array_join (str '','') (map (\<lambda>attr. JStr (replace attr (str ''faceId'') (str ''id''))) attrs)
      = join (str '','') (map (\<lambda>a. replace a (str ''faceId'') (str ''id'')) attrs)"
    using array_join_strings [of "str '',''" "map (\<lambda>a. replace a (str ''faceId'') (str ''id'')) attrs"]
    by (simp add: comp_def)
  ultimately show "tag_elem lib p m =
           Inr (spread [(str ''type'', JStr (str ''face''))] (fromEntries (map (face_entry lib) attrs)),
                str ''<face:'' @ join (str '','') (map (\<lambda>a. replace a (str ''faceId'') (str ''id'')) attrs)
                  @ str ''>'')"
    using assms(1) by (simp add: tag_elem_def face_entries mk)
next
  assume "str ''type'' \<notin> set (map fst (map (face_entry lib) attrs))"
  then show "obj_get (spread [(str ''type'', JStr (str ''face''))] (fromEntries (map (face_entry lib) attrs)))
            (str ''type'') = JStr (str ''face'')"
    by (rule spread_keeps_type)
next
  fix a :: jsstring
  assume "\<forall>j. take 6 (drop j a) \<noteq> str ''faceId''"
  then have "\<forall>j. take (length (str ''faceId'')) (drop j a) \<noteq> str ''faceId''" by (simp add: length_faceId)
  then show "replace a (str ''faceId'') (str ''id'') = a" by (rule replace_absent)
next
  fix u v :: jsstring
  assume "\<forall>j<length u. take 6 (drop j (u @ str ''faceId'' @ v)) \<noteq> str ''faceId''"
  then have "\<forall>j<length u. take (length (str ''faceId'')) (drop j (u @ str ''faceId'' @ v)) \<noteq> str ''faceId''"
    by (simp add: length_faceId)
  then show "replace (u @ str ''faceId'' @ v) (str ''faceId'') (str ''id'') = u @ str ''id'' @ v"
    by (rule replace_first_occurrence)
qed

theorem tag_elem_faceType_witness:
  "split 44 (slice (str ''<faceType=1,faceId=3,ext=x>'') 1 (-1))
      = str ''faceType=1'' # [str ''faceId=3'', str ''ext=x'']
   \<and> startsWith (str ''faceType=1'') (str ''faceType'')
   \<and> tag_elem ascii_lib \<lparr>content' = None, attachments = None, mentions = None\<rparr>
         (str ''<faceType=1,faceId=3,ext=x>'')
       = Inr ([(str ''type'', JStr (str ''face'')), (str ''id'', JStr (str ''3'')),
               (str ''ext'', JStr (str ''x''))], str ''<face:id=3,ext=x>'')
   \<and> replace (str ''my'' @ str ''faceId'' @ str ''=5'') (str ''faceId'') (str ''id'')
       = str ''my'' @ str ''id'' @ str ''=5''"
proof -
  let ?m = "str ''<faceType=1,faceId=3,ext=x>''"
  let ?p = "\<lparr>content' = None, attachments = None, mentions = None\<rparr>"
  have a: "split 44 (slice ?m 1 (-1)) = str ''faceType=1'' # [str ''faceId=3'', str ''ext=x'']"
    by (simp add: string_defs)
  have b: "startsWith (str ''faceType=1'') (str ''faceType'')"
    by (simp add: string_defs)
  note T = tag_elem_faceType [OF a b, of ascii_lib ?p]
  have e: "spread [(str ''type'', JStr (str ''face''))]
        (fromEntries (map (face_entry ascii_lib) [str ''faceId=3'', str ''ext=x'']))
      = [(str ''type'', JStr (str ''face'')), (str ''id'', JStr (str ''3'')), (str ''ext'', JStr (str ''x''))]"
    by (simp add: face_entry_def spread_def fromEntries_def string_defs ascii_lib_def ascii_lower_def
        trim_quote_def quote_styles_def)
  have f: "str ''<face:'' @ join (str '','')
        (map (\<lambda>a. replace a (str ''faceId'') (str ''id'')) [str ''faceId=3'', str ''ext=x'']) @ str ''>''
      = str ''<face:id=3,ext=x>''"
    by (simp add: string_defs)
  have c: "tag_elem ascii_lib ?p ?m
       = Inr ([(str ''type'', JStr (str ''face'')), (str ''id'', JStr (str ''3'')),
               (str ''ext'', JStr (str ''x''))], str ''<face:id=3,ext=x>'')"
    using T [THEN conjunct1] by (simp only: e f)
  have h: "\<forall>j<length (str ''my''). take 6 (drop j (str ''my'' @ str ''faceId'' @ str ''=5'')) \<noteq> str ''faceId''"
    by (simp add: str_def less_Suc_eq numeral_2_eq_2)
  have d: "replace (str ''my'' @ str ''faceId'' @ str ''=5'') (str ''faceId'') (str ''id'')
       = str ''my'' @ str ''id'' @ str ''=5''"
    using T [THEN conjunct2, THEN conjunct2, THEN conjunct2] h by blast
  show ?thesis by (rule conjI [OF a conjI [OF b conjI [OF c d]]])
qed

text \<open>As stated, C6 fails: the value \<open>faceId\<close> of the key \<open>x\<close> is changed to \<open>id\<close>.\<close>

theorem tag_elem_faceType_counterexample:
  "tag_elem ascii_lib \<lparr>content' = None, attachments = None, mentions = None\<rparr> (str ''<faceType,x=faceId>'')
     = Inr ([(str ''type'', JStr (str ''face'')), (str ''x'', JStr (str ''id''))], str ''<face:x=id>'')
   \<and> JStr (str ''id'') \<noteq> JStr (str ''faceId'')"
  by (simp add: decode_defs string_defs ascii_lib_def ascii_lower_def trim_quote_def quote_styles_def)

end
